theory Spec2Isabelle
  imports Main
begin

section \<open>Strings of UTF-16 code units\<close>

text \<open>
  The program is TypeScript: a string is a sequence of UTF-16 code units, indexed from 0.
  A code unit is modelled by its number, a string by the list of its code units. The
  literals of the source are written through \<open>str\<close>, one code unit for each ASCII
  character.
\<close>

type_synonym code_unit = nat
type_synonym jsstring = "code_unit list"

definition str :: "string \<Rightarrow> jsstring" where
  "str s = map of_char s"

definition cu :: "char \<Rightarrow> code_unit" where
  "cu c = of_char c"

text \<open>
  \<open>text[i]\<close> for a number \<open>i\<close>: the code unit at \<open>i\<close>, and \<open>undefined\<close> (here
  \<open>None\<close>) when \<open>i\<close> is negative or not below the length. Nothing is raised.
\<close>

definition char_at :: "jsstring \<Rightarrow> int \<Rightarrow> code_unit option" where
  "char_at text i = (if 0 \<le> i \<and> i < int (length text) then Some (text ! nat i) else None)"

text \<open>
  \<open>s.slice(start, end)\<close> on integers: a negative index counts from the end, both are
  clamped to the string, and an empty string is returned when start is not below end.
\<close>

definition slice :: "jsstring \<Rightarrow> int \<Rightarrow> int \<Rightarrow> jsstring" where
  "slice s start end' =
     (let len = int (length s);
          from = (if start < 0 then max (len + start) 0 else min start len);
          to = (if end' < 0 then max (len + end') 0 else min end' len)
      in if from \<ge> to then [] else take (nat (to - from)) (drop (nat from) s))"

definition slice_from :: "jsstring \<Rightarrow> int \<Rightarrow> jsstring" where
  "slice_from s start = slice s start (int (length s))"

section \<open>findMatchingBrace\<close>

text \<open>
  The local variables of \<open>findMatchingBrace\<close> that change in its loop. The loop
  variable \<open>i\<close> of the source is the field \<open>idx\<close>.
\<close>

record scan_state =
  idx :: int
  depth :: int
  inSingleLineComment :: bool
  inMultiLineComment :: bool
  inDoubleQuote :: bool
  inSingleQuote :: bool

definition scan_init :: "int \<Rightarrow> scan_state" where
  "scan_init openPos =
     \<lparr>idx = openPos, depth = 0, inSingleLineComment = False, inMultiLineComment = False,
      inDoubleQuote = False, inSingleQuote = False\<rparr>"

text \<open>No comment and no string is open: the guard of the first branch of the loop body.\<close>

definition normal_mode :: "scan_state \<Rightarrow> bool" where
  "normal_mode st \<longleftrightarrow>
     \<not> inSingleLineComment st \<and> \<not> inMultiLineComment st \<and> \<not> inDoubleQuote st \<and> \<not> inSingleQuote st"

text \<open>
  The end of the loop body (source lines 69 to 75): count the brace, return at depth 0,
  go to the next code unit. \<open>Inl r\<close> is \<open>return r\<close>, \<open>Inr st\<close> is the state at
  the next test of the loop condition.
\<close>

definition count_brace :: "code_unit option \<Rightarrow> scan_state \<Rightarrow> int + scan_state" where
  "count_brace ch st =
     (if ch = Some (cu CHR ''{'') then Inr (st\<lparr>depth := depth st + 1, idx := idx st + 1\<rparr>)
      else if ch = Some (cu CHR ''}'') then
        (if depth st - 1 = 0 then Inl (idx st)
         else Inr (st\<lparr>depth := depth st - 1, idx := idx st + 1\<rparr>))
      else Inr (st\<lparr>idx := idx st + 1\<rparr>))"

text \<open>One pass through the body of the \<open>while\<close> loop, entered with \<open>i < len\<close>.\<close>

definition scan_body :: "jsstring \<Rightarrow> scan_state \<Rightarrow> int + scan_state" where
  "scan_body text st =
     (let i = idx st; len = int (length text);
          ch = char_at text i;
          next = (if i + 1 < len then char_at text (i + 1) else None)
      in
      if \<not> inSingleLineComment st \<and> \<not> inMultiLineComment st \<and> \<not> inDoubleQuote st
           \<and> \<not> inSingleQuote st then
        (if ch = Some (cu CHR ''/'') \<and> next = Some (cu CHR ''/'') then
           Inr (st\<lparr>inSingleLineComment := True, idx := i + 2\<rparr>)
         else if ch = Some (cu CHR ''/'') \<and> next = Some (cu CHR ''*'') then
           Inr (st\<lparr>inMultiLineComment := True, idx := i + 2\<rparr>)
         else if ch = Some (cu CHR 0x22) then
           Inr (st\<lparr>inDoubleQuote := True, idx := i + 1\<rparr>)
         else if ch = Some (cu CHR 0x27) then
           Inr (st\<lparr>inSingleQuote := True, idx := i + 1\<rparr>)
         else count_brace ch st)
      else if inSingleLineComment st then
        (if ch = Some (cu CHR ''\<newline>'') then Inr (st\<lparr>inSingleLineComment := False, idx := i + 1\<rparr>)
         else Inr (st\<lparr>idx := i + 1\<rparr>))
      else if inMultiLineComment st then
        (if ch = Some (cu CHR ''*'') \<and> next = Some (cu CHR ''/'') then
           Inr (st\<lparr>inMultiLineComment := False, idx := i + 2\<rparr>)
         else Inr (st\<lparr>idx := i + 1\<rparr>))
      else if inDoubleQuote st then
        (if ch = Some (cu CHR 0x5C) \<and> next \<noteq> None then Inr (st\<lparr>idx := i + 2\<rparr>)
         else if ch = Some (cu CHR 0x22) then Inr (st\<lparr>inDoubleQuote := False, idx := i + 1\<rparr>)
         else Inr (st\<lparr>idx := i + 1\<rparr>))
      else if inSingleQuote st then
        (if ch = Some (cu CHR 0x5C) \<and> next \<noteq> None then Inr (st\<lparr>idx := i + 2\<rparr>)
         else if ch = Some (cu CHR 0x27) then Inr (st\<lparr>inSingleQuote := False, idx := i + 1\<rparr>)
         else Inr (st\<lparr>idx := i + 1\<rparr>))
      else count_brace ch st)"

text \<open>
  One iteration of \<open>while (i < len) { ... }\<close> with the \<open>return -1\<close> behind it: the
  loop condition, then the body.
\<close>

definition scan_iter :: "jsstring \<Rightarrow> scan_state \<Rightarrow> int + scan_state" where
  "scan_iter text st =
     (if idx st < int (length text) then scan_body text st else Inl (- 1))"

lemma scan_body_advances:
  "scan_body text st = Inr st' \<Longrightarrow> idx st < idx st'"
  unfolding scan_body_def count_brace_def Let_def
  by (cases "inSingleLineComment st"; cases "inMultiLineComment st"; cases "inDoubleQuote st";
      cases "inSingleQuote st"; simp split: if_splits; force)

function scan_loop :: "jsstring \<Rightarrow> scan_state \<Rightarrow> int" where
  "scan_loop text st =
     (case scan_iter text st of Inl r \<Rightarrow> r | Inr st' \<Rightarrow> scan_loop text st')"
  by pat_completeness auto
termination
proof (relation "measure (\<lambda>(text, st). nat (int (length text) - idx st))")
  show "wf (measure (\<lambda>(text, st). nat (int (length text) - idx st)))"
    by simp
next
  fix t :: jsstring and st x2 :: scan_state
  assume "scan_iter t st = Inr x2"
  then have "idx st < int (length t)" and "idx st < idx x2"
    by (auto simp: scan_iter_def split: if_splits dest: scan_body_advances)
  then show "((t, x2), (t, st)) \<in> measure (\<lambda>(text, st). nat (int (length text) - idx st))"
    by simp
qed

definition findMatchingBrace :: "jsstring \<Rightarrow> int \<Rightarrow> int" where
  "findMatchingBrace text openPos = scan_loop text (scan_init openPos)"

text \<open>
  The states in which the loop body is entered, in order: the scan of the loop, kept as
  a list.
\<close>

function scan_trace :: "jsstring \<Rightarrow> scan_state \<Rightarrow> scan_state list" where
  "scan_trace text st =
     (if idx st < int (length text) then
        st # (case scan_body text st of Inl r \<Rightarrow> [] | Inr st' \<Rightarrow> scan_trace text st')
      else [])"
  by pat_completeness auto
termination
proof (relation "measure (\<lambda>(text, st). nat (int (length text) - idx st))")
  show "wf (measure (\<lambda>(text, st). nat (int (length text) - idx st)))"
    by simp
next
  fix t :: jsstring and st x2 :: scan_state
  assume "idx st < int (length t)" and "scan_body t st = Inr x2"
  then show "((t, x2), (t, st)) \<in> measure (\<lambda>(text, st). nat (int (length text) - idx st))"
    by (auto dest: scan_body_advances)
qed

declare scan_loop.simps [simp del] scan_trace.simps [simp del]

section \<open>Regular expressions\<close>

text \<open>
  The two regular expression literals of the source use literals, character classes,
  greedy \<open>*\<close>, \<open>+\<close> and \<open>?\<close>, alternation, \<open>^\<close> under the flag \<open>m\<close> and
  \<open>\b\<close>. Every \<open>*\<close> and \<open>+\<close> in them is applied to a single character class, and
  the type below has repetition in that form only.
\<close>

datatype rx =
    Empty
  | Class "code_unit \<Rightarrow> bool"
  | Chars jsstring
  | Then rx rx
  | Or rx rx
  | Optional rx
  | ZeroOrMore "code_unit \<Rightarrow> bool"
  | OneOrMore "code_unit \<Rightarrow> bool"
  | LineStart
  | WordBoundary

text \<open>The classes of ECMAScript, without the flags \<open>i\<close> and \<open>u\<close>.\<close>

definition is_line_terminator :: "code_unit \<Rightarrow> bool" where
  "is_line_terminator c \<longleftrightarrow> c = 10 \<or> c = 13 \<or> c = 8232 \<or> c = 8233"

definition is_space :: "code_unit \<Rightarrow> bool" where
  "is_space c \<longleftrightarrow>
     c = 9 \<or> c = 10 \<or> c = 11 \<or> c = 12 \<or> c = 13 \<or> c = 32 \<or> c = 160 \<or> c = 5760
     \<or> (8192 \<le> c \<and> c \<le> 8202) \<or> c = 8232 \<or> c = 8233 \<or> c = 8239 \<or> c = 8287
     \<or> c = 12288 \<or> c = 65279"

definition is_digit :: "code_unit \<Rightarrow> bool" where
  "is_digit c \<longleftrightarrow> 48 \<le> c \<and> c \<le> 57"

definition is_ident_start :: "code_unit \<Rightarrow> bool" where
  "is_ident_start c \<longleftrightarrow> (65 \<le> c \<and> c \<le> 90) \<or> (97 \<le> c \<and> c \<le> 122) \<or> c = 95"

definition is_word :: "code_unit \<Rightarrow> bool" where
  "is_word c \<longleftrightarrow> is_ident_start c \<or> is_digit c"

definition is_type_char :: "code_unit \<Rightarrow> bool" where
  "is_type_char c \<longleftrightarrow> is_word c \<or> c = 46 \<or> c = 60 \<or> c = 62"

definition not_char :: "char \<Rightarrow> code_unit \<Rightarrow> bool" where
  "not_char x c \<longleftrightarrow> c \<noteq> cu x"

text \<open>
  Backtracking matching: \<open>ends r t i\<close> lists the positions at which a match of \<open>r\<close>
  that starts at position \<open>i\<close> of \<open>t\<close> can end, in the order in which the backtracking
  matcher of ECMAScript tries them. A greedy repetition tries the longest run first; an
  alternation tries its left side first; an optional part is tried before it is skipped,
  and an iteration that matches nothing is rejected.
\<close>

fun star_ends :: "(code_unit \<Rightarrow> bool) \<Rightarrow> jsstring \<Rightarrow> nat \<Rightarrow> nat list" where
  "star_ends p [] i = [i]"
| "star_ends p (c # cs) i = (if p c then star_ends p cs (Suc i) @ [i] else [i])"

fun ends :: "rx \<Rightarrow> jsstring \<Rightarrow> nat \<Rightarrow> nat list" where
  "ends Empty t i = [i]"
| "ends (Class p) t i = (case drop i t of [] \<Rightarrow> [] | c # cs \<Rightarrow> if p c then [Suc i] else [])"
| "ends (Chars s) t i = (if take (length s) (drop i t) = s then [i + length s] else [])"
| "ends (Then a b) t i = concat (map (ends b t) (ends a t i))"
| "ends (Or a b) t i = ends a t i @ ends b t i"
| "ends (Optional a) t i = filter (\<lambda>j. j \<noteq> i) (ends a t i) @ [i]"
| "ends (ZeroOrMore p) t i = star_ends p (drop i t) i"
| "ends (OneOrMore p) t i =
     (case drop i t of [] \<Rightarrow> [] | c # cs \<Rightarrow> if p c then star_ends p cs (Suc i) else [])"
| "ends LineStart t i =
     (if i = 0 \<or> (i \<le> length t \<and> is_line_terminator (t ! (i - 1))) then [i] else [])"
| "ends WordBoundary t i =
     (let a = (0 < i \<and> i \<le> length t \<and> is_word (t ! (i - 1)));
          b = (i < length t \<and> is_word (t ! i))
      in if a \<noteq> b then [i] else [])"

fun cat :: "rx list \<Rightarrow> rx" where
  "cat [] = Empty"
| "cat (r # rs) = Then r (cat rs)"

text \<open>
  \<open>exec\<close> of a regular expression with the flag \<open>g\<close>, from \<open>lastIndex\<close>: the first
  position from there on at which the expression matches, with the first result of the
  matcher there; \<open>null\<close> (here \<open>None\<close>) when \<open>lastIndex\<close> is beyond the end or no
  position matches. The matcher \<open>m\<close> gives the results at a position in the order tried.
\<close>

function regex_exec :: "(jsstring \<Rightarrow> nat \<Rightarrow> 'a list) \<Rightarrow> jsstring \<Rightarrow> nat \<Rightarrow> (nat \<times> 'a) option" where
  "regex_exec m t lastIndex =
     (if lastIndex > length t then None
      else case m t lastIndex of
             [] \<Rightarrow> regex_exec m t (Suc lastIndex)
           | r # _ \<Rightarrow> Some (lastIndex, r))"
  by pat_completeness auto
termination
  by (relation "measure (\<lambda>(m, t, lastIndex). Suc (length t) - lastIndex)") auto

declare regex_exec.simps [simp del]

section \<open>renumberMessageBody\<close>

text \<open>
  The three capture groups of \<open>fieldRegex\<close>, which follow each other and make up the
  whole expression.
\<close>

definition field_p1 :: rx where
  "field_p1 = cat
     [LineStart, ZeroOrMore is_space,
      Optional (Or (Chars (str ''optional'')) (Or (Chars (str ''required'')) (Chars (str ''repeated'')))),
      ZeroOrMore is_space,
      Or (cat [Chars (str ''map<''), OneOrMore (not_char CHR ''>''), Chars (str ''>'')])
         (OneOrMore is_type_char),
      OneOrMore is_space, Class is_ident_start, ZeroOrMore is_word, ZeroOrMore is_space,
      Chars (str ''=''), ZeroOrMore is_space]"

definition field_num :: rx where
  "field_num = OneOrMore is_digit"

definition field_p3 :: rx where
  "field_p3 = cat
     [ZeroOrMore is_space,
      Optional (cat [Chars (str ''[''), ZeroOrMore (not_char CHR '']''), Chars (str '']'')]),
      ZeroOrMore is_space, Chars (str '';'')]"

text \<open>
  The matches of \<open>fieldRegex\<close> at a position, in the order tried: the end of group 1,
  the end of group 2 (the number) and the end of the match.
\<close>

definition fieldRegex :: "jsstring \<Rightarrow> nat \<Rightarrow> (nat \<times> nat \<times> nat) list" where
  "fieldRegex t i =
     concat (map (\<lambda>e1. concat (map (\<lambda>e2. map (\<lambda>e3. (e1, e2, e3)) (ends field_p3 t e2))
                                      (ends field_num t e1)))
                 (ends field_p1 t i))"

text \<open>\<open>String(n)\<close> for a natural number: its decimal digits.\<close>

function String :: "nat \<Rightarrow> jsstring" where
  "String n = (if n < 10 then [48 + n] else String (n div 10) @ [48 + n mod 10])"
  by pat_completeness auto
termination
  by (relation "measure id") auto

declare String.simps [simp del]

text \<open>
  \<open>body.replace(fieldRegex, f)\<close> in two parts, as the language defines it. First all
  matches are collected, each search starting where the match before ended (one further
  when that match was empty).
\<close>

function field_matches :: "jsstring \<Rightarrow> nat \<Rightarrow> (nat \<times> nat \<times> nat \<times> nat) list" where
  "field_matches body lastIndex =
     (case regex_exec fieldRegex body lastIndex of
        None \<Rightarrow> []
      | Some (s, e1, e2, e3) \<Rightarrow>
          (s, e1, e2, e3) # field_matches body (if e3 = s then Suc e3 else e3))"
  by pat_completeness auto

lemma star_ends_bounds:
  "e \<in> set (star_ends p cs i) \<Longrightarrow> i \<le> e \<and> e \<le> i + length cs"
  by (induction cs arbitrary: i e) (fastforce split: if_splits)+

lemma ends_bounds:
  "e \<in> set (ends r t i) \<Longrightarrow> i \<le> length t \<Longrightarrow> i \<le> e \<and> e \<le> length t"
proof (induction r arbitrary: i e)
  case (Class p)
  then show ?case
    by (auto split: list.splits if_splits dest: arg_cong [where f = length])
next
  case (Chars s)
  then have "take (length s) (drop i t) = s"
    by (auto split: if_splits)
  then have "length (take (length s) (drop i t)) = length s"
    by simp
  then have "length s \<le> length t - i"
    by simp
  with Chars show ?case
    by (auto split: if_splits)
next
  case (Then a b)
  from Then.prems obtain j where j: "j \<in> set (ends a t i)" and e: "e \<in> set (ends b t j)"
    by auto
  from Then.IH(1) [OF j Then.prems(2)] have "i \<le> j" "j \<le> length t"
    by auto
  with Then.IH(2) [OF e] show ?case
    by auto
next
  case (ZeroOrMore p)
  then show ?case
    using star_ends_bounds [of e p "drop i t" i] by auto
next
  case (OneOrMore p)
  then obtain c cs where d: "drop i t = c # cs" and e: "e \<in> set (star_ends p cs (Suc i))"
    by (cases "drop i t") (auto split: if_splits)
  from d have "length (drop i t) = Suc (length cs)"
    by simp
  with OneOrMore.prems(2) have "length cs + Suc i = length t"
    by simp
  with star_ends_bounds [OF e] show ?case
    by auto
qed (auto split: if_splits simp: Let_def)

lemma regex_exec_Some:
  "regex_exec m t lastIndex = Some (s, r) \<Longrightarrow>
     lastIndex \<le> s \<and> s \<le> length t \<and> m t s \<noteq> [] \<and> r = hd (m t s)"
proof (induction m t lastIndex rule: regex_exec.induct)
  case (1 m t lastIndex)
  show ?case
  proof (cases "m t lastIndex")
    case Nil
    with "1.prems" have le: "\<not> length t < lastIndex" and
      rec: "regex_exec m t (Suc lastIndex) = Some (s, r)"
      by (auto simp: regex_exec.simps [of m t lastIndex] split: if_splits)
    from "1.IH" [OF le Nil rec] show ?thesis
      by auto
  next
    case (Cons a as)
    with "1.prems" show ?thesis
      by (auto simp: regex_exec.simps [of m t lastIndex] split: if_splits)
  qed
qed

lemma fieldRegex_bounds:
  assumes "x \<in> set (fieldRegex t i)" and "i \<le> length t"
  shows "i \<le> fst x \<and> fst x \<le> fst (snd x) \<and> fst (snd x) \<le> snd (snd x) \<and> snd (snd x) \<le> length t"
proof -
  from assms(1) obtain e1 e2 e3 where x: "x = (e1, e2, e3)"
    and e1: "e1 \<in> set (ends field_p1 t i)" and e2: "e2 \<in> set (ends field_num t e1)"
    and e3: "e3 \<in> set (ends field_p3 t e2)"
    by (auto simp: fieldRegex_def)
  from ends_bounds [OF e1 assms(2)] have b1: "i \<le> e1" "e1 \<le> length t" by auto
  from ends_bounds [OF e2 b1(2)] have b2: "e1 \<le> e2" "e2 \<le> length t" by auto
  from ends_bounds [OF e3 b2(2)] have b3: "e2 \<le> e3" "e3 \<le> length t" by auto
  from x b1 b2 b3 show ?thesis by simp
qed

lemma fieldRegex_exec_bounds:
  assumes "regex_exec fieldRegex body lastIndex = Some (s, e1, e2, e3)"
  shows "lastIndex \<le> s \<and> s \<le> e1 \<and> e1 \<le> e2 \<and> e2 \<le> e3 \<and> e3 \<le> length body"
proof -
  from regex_exec_Some [OF assms]
  have s: "lastIndex \<le> s" "s \<le> length body" and ne: "fieldRegex body s \<noteq> []"
    and hd: "(e1, e2, e3) = hd (fieldRegex body s)"
    by auto
  from ne hd have "(e1, e2, e3) \<in> set (fieldRegex body s)"
    by simp
  from fieldRegex_bounds [OF this s(2)] s show ?thesis
    by simp
qed

termination field_matches
proof (relation "measure (\<lambda>(body, lastIndex). Suc (length body) - lastIndex)")
  show "wf (measure (\<lambda>(body, lastIndex). Suc (length body) - lastIndex))"
    by simp
next
  fix body :: jsstring and lastIndex s e1 e2 e3 :: nat
    and x2 :: "nat \<times> nat \<times> nat \<times> nat" and y :: "nat \<times> nat \<times> nat" and ya :: "nat \<times> nat"
  assume "regex_exec fieldRegex body lastIndex = Some x2" "(s, y) = x2" "(e1, ya) = y" "(e2, e3) = ya"
  then have "regex_exec fieldRegex body lastIndex = Some (s, e1, e2, e3)"
    by simp
  from fieldRegex_exec_bounds [OF this]
  show "((body, if e3 = s then Suc e3 else e3), (body, lastIndex))
          \<in> measure (\<lambda>(body, lastIndex). Suc (length body) - lastIndex)"
    by auto
qed

declare field_matches.simps [simp del]

text \<open>
  Then the result is built from left to right: the text between the matches is copied,
  and each match is replaced by what the callback returns, \<open>p1 + String(counter++) + p3\<close>.
  \<open>pos\<close> is the position behind the match before.
\<close>

fun replace_matches :: "jsstring \<Rightarrow> nat \<Rightarrow> nat \<Rightarrow> (nat \<times> nat \<times> nat \<times> nat) list \<Rightarrow> jsstring" where
  "replace_matches body pos counter [] = drop pos body"
| "replace_matches body pos counter ((s, e1, e2, e3) # ms) =
     (let p1 = take (e1 - s) (drop s body);
          p3 = take (e3 - e2) (drop e2 body);
          newNum = String counter
      in if pos \<le> s then
           take (s - pos) (drop pos body) @ (p1 @ newNum @ p3) @ replace_matches body e3 (Suc counter) ms
         else replace_matches body pos (Suc counter) ms)"

definition renumberMessageBody :: "jsstring \<Rightarrow> jsstring" where
  "renumberMessageBody body = replace_matches body 0 1 (field_matches body 0)"

section \<open>processProtoText\<close>

definition msgRegex :: "jsstring \<Rightarrow> nat \<Rightarrow> nat list" where
  "msgRegex = ends (cat
     [WordBoundary, Chars (str ''message''), OneOrMore is_space,
      Class is_ident_start, ZeroOrMore is_word, ZeroOrMore is_space, Chars (str ''{'')])"

record range =
  "open" :: int
  close :: int

text \<open>\<open>s.lastIndexOf(c)\<close> for a single code unit: the last index of it, or \<open>-1\<close>.\<close>

fun lastIndexOf :: "jsstring \<Rightarrow> code_unit \<Rightarrow> int" where
  "lastIndexOf [] c = - 1"
| "lastIndexOf (x # xs) c =
     (let r = lastIndexOf xs c in if r \<noteq> - 1 then r + 1 else if x = c then 0 else - 1)"

text \<open>
  One iteration of \<open>while ((match = msgRegex.exec(text)) !== null)\<close>. The state is
  \<open>msgRegex.lastIndex\<close> and \<open>ranges\<close>. \<open>exec\<close> leaves \<open>lastIndex\<close> at the end of the
  match, which is where the search goes on after \<open>continue\<close>.
\<close>

definition ranges_iter :: "jsstring \<Rightarrow> nat \<times> range list \<Rightarrow> range list + (nat \<times> range list)" where
  "ranges_iter text st =
     (case regex_exec msgRegex text (fst st) of
        None \<Rightarrow> Inl (snd st)
      | Some (matchStart, matchEnd) \<Rightarrow>
          (let matchStr = take (matchEnd - matchStart) (drop matchStart text);
               braceIndexWithinMatch = lastIndexOf matchStr (cu CHR ''{'');
               openPos = int matchStart + braceIndexWithinMatch;
               closePos = findMatchingBrace text openPos
           in if closePos = - 1 then Inr (matchEnd, snd st)
              else Inr (matchStart + 1, snd st @ [\<lparr>open = openPos, close = closePos\<rparr>])))"

lemma msgRegex_bounds:
  assumes "e \<in> set (msgRegex t s)" and "s \<le> length t"
  shows "s < e \<and> e \<le> length t"
proof -
  let ?rest = "cat [OneOrMore is_space, Class is_ident_start, ZeroOrMore is_word,
                    ZeroOrMore is_space, Chars (str ''{'')]"
  from assms(1) obtain j k where j: "j \<in> set (ends WordBoundary t s)"
    and k: "k \<in> set (ends (Chars (str ''message'')) t j)" and e: "e \<in> set (ends ?rest t k)"
    by (auto simp: msgRegex_def)
  from j have js: "j = s"
    by (auto simp: Let_def split: if_splits)
  from k have kj: "k = j + 7"
    by (auto simp: str_def split: if_splits)
  from ends_bounds [OF k] js assms(2) have "k \<le> length t"
    by simp
  from ends_bounds [OF e this] js kj show ?thesis
    by simp
qed

lemma msgRegex_exec_bounds:
  assumes "regex_exec msgRegex text lastIndex = Some (s, e)"
  shows "lastIndex \<le> s \<and> s < e \<and> e \<le> length text"
proof -
  from regex_exec_Some [OF assms]
  have s: "lastIndex \<le> s" "s \<le> length text" and ne: "msgRegex text s \<noteq> []"
    and hd: "e = hd (msgRegex text s)"
    by auto
  from ne hd have "e \<in> set (msgRegex text s)"
    by simp
  from msgRegex_bounds [OF this s(2)] s show ?thesis
    by simp
qed

lemma ranges_iter_advances:
  assumes "ranges_iter text st = Inr st'"
  shows "fst st < fst st' \<and> fst st \<le> length text"
proof -
  from assms obtain s e where ex: "regex_exec msgRegex text (fst st) = Some (s, e)"
    and st': "fst st' = e \<or> fst st' = s + 1"
    by (auto simp: ranges_iter_def Let_def split: option.splits if_splits)
  from msgRegex_exec_bounds [OF ex] st' show ?thesis
    by auto
qed

function ranges_loop :: "jsstring \<Rightarrow> nat \<times> range list \<Rightarrow> range list" where
  "ranges_loop text st =
     (case ranges_iter text st of Inl ranges \<Rightarrow> ranges | Inr st' \<Rightarrow> ranges_loop text st')"
  by pat_completeness auto
termination
proof (relation "measure (\<lambda>(text, st). Suc (length text) - fst st)")
  show "wf (measure (\<lambda>(text, st). Suc (length text) - fst st))"
    by simp
next
  fix t :: jsstring and st x2 :: "nat \<times> range list"
  assume "ranges_iter t st = Inr x2"
  from ranges_iter_advances [OF this]
  show "((t, x2), (t, st)) \<in> measure (\<lambda>(text, st). Suc (length text) - fst st)"
    by auto
qed

declare ranges_loop.simps [simp del]

text \<open>
  The body of \<open>for (const r of ranges)\<close>; the state is \<open>result\<close> and \<open>anyChange\<close>.
\<close>

definition rewrite_range :: "jsstring \<times> bool \<Rightarrow> range \<Rightarrow> jsstring \<times> bool" where
  "rewrite_range st r =
     (let result = fst st;
          bodyStart = open r + 1;
          bodyEnd = close r;
          body = slice result bodyStart bodyEnd;
          newBody = renumberMessageBody body
      in if newBody \<noteq> body then
           (slice result 0 bodyStart @ newBody @ slice_from result bodyEnd, True)
         else st)"

text \<open>
  \<open>ranges.sort((a, b) => b.open - a.open)\<close> is a stable sort by descending \<open>open\<close>.
  The result pair is \<open>(result, changed)\<close>.
\<close>

definition processProtoText :: "jsstring \<Rightarrow> jsstring \<times> bool" where
  "processProtoText text =
     (let ranges = ranges_loop text (0, []);
          sorted = sort_key (\<lambda>r. - open r) ranges
      in foldl rewrite_range (text, False) sorted)"

section \<open>Notions used in the statements\<close>

text \<open>
  The number tokens of a body: for each match of \<open>fieldRegex\<close> found by \<open>replace\<close>, the
  positions where group 2 starts and ends.
\<close>

definition number_tokens :: "jsstring \<Rightarrow> (nat \<times> nat) list" where
  "number_tokens body = map (\<lambda>(s, e1, e2, e3). (e1, e2)) (field_matches body 0)"

text \<open>
  \<open>splice body pos toks\<close> is the text of \<open>body\<close> from \<open>pos\<close> on in which each token
  \<open>(a, b, new)\<close>, the code units from \<open>a\<close> up to \<open>b\<close>, is replaced by \<open>new\<close> and
  everything else is kept.
\<close>

fun splice :: "jsstring \<Rightarrow> nat \<Rightarrow> (nat \<times> nat \<times> jsstring) list \<Rightarrow> jsstring" where
  "splice body pos [] = drop pos body"
| "splice body pos ((a, b, new) # toks) = take (a - pos) (drop pos body) @ new @ splice body b toks"

fun new_tags :: "nat \<Rightarrow> (nat \<times> nat) list \<Rightarrow> (nat \<times> nat \<times> jsstring) list" where
  "new_tags counter [] = []"
| "new_tags counter ((a, b) # toks) = (a, b, String counter) # new_tags (Suc counter) toks"

definition old_tags :: "jsstring \<Rightarrow> (nat \<times> nat) list \<Rightarrow> (nat \<times> nat \<times> jsstring) list" where
  "old_tags body toks = map (\<lambda>(a, b). (a, b, take (b - a) (drop a body))) toks"

fun chain :: "nat \<Rightarrow> (nat \<times> nat \<times> nat \<times> nat) list \<Rightarrow> bool" where
  "chain pos [] \<longleftrightarrow> True"
| "chain pos ((s, e1, e2, e3) # ms) \<longleftrightarrow> pos \<le> s \<and> s \<le> e1 \<and> e1 \<le> e2 \<and> e2 \<le> e3 \<and> chain e3 ms"


section \<open>Evaluation by rewriting\<close>

text \<open>
  Concrete runs of the program are computed by rewriting with the defining equations.
  The rules below evaluate numerals, list operations and the literals of the source;
  the congruence rules keep a branch from being unfolded before its condition is known.
\<close>

lemma length_Cons_plus1: "length (x # xs) = length xs + 1"
  by simp

lemma nth_Cons_pred: "(x # xs) ! numeral k = xs ! pred_numeral k"
  by (simp add: numeral_eq_Suc)

lemma drop_Cons_pred: "drop (numeral k) (x # xs) = drop (pred_numeral k) xs"
  by (simp add: numeral_eq_Suc)

lemma take_Cons_pred: "take (numeral k) (x # xs) = x # take (pred_numeral k) xs"
  by (simp add: numeral_eq_Suc)

lemma nth_Cons_1: "(x # xs) ! 1 = xs ! 0"
  by simp

lemma drop_Cons_1: "drop 1 (x # xs) = xs"
  by simp

lemma take_Cons_1: "take 1 (x # xs) = [x]"
  by simp

lemma Suc_eval: "Suc 0 = 1" "Suc 1 = 2" "Suc (numeral k) = numeral (k + Num.One)"
  by simp_all

lemma nat_sub_eval:
  "(numeral k :: nat) - 1 = pred_numeral k" "(1::nat) - 1 = 0" "(0::nat) - n = 0" "(n::nat) - 0 = n"
  by simp_all

lemma pred_numeral_eval:
  "pred_numeral Num.One = 0"
  "pred_numeral (Num.Bit0 Num.One) = 1"
  "pred_numeral (Num.Bit0 (Num.Bit0 k)) = numeral (Num.BitM (Num.Bit0 k))"
  "pred_numeral (Num.Bit0 (Num.Bit1 k)) = numeral (Num.BitM (Num.Bit1 k))"
  "pred_numeral (Num.Bit1 k) = numeral (Num.Bit0 k)"
  by simp_all

lemma int_eval:
  "int 0 = 0" "int 1 = 1" "int (numeral k) = numeral k"
  "nat 0 = 0" "nat 1 = 1" "nat (numeral k) = numeral k"
  by simp_all

lemmas eval_basic =
  simp_thms(1-34) if_True if_False Let_def option.case sum.case list.case prod.case
  case_prod_conv fst_conv snd_conv
  option.inject option.distinct sum.inject sum.distinct list.inject list.distinct
  arith_simps rel_simps pred_numeral_eval Suc_eval int_eval nat_sub_eval
  nth_Cons_0 nth_Cons_pred nth_Cons_1 drop_0 drop_Cons_pred drop_Cons_1 take_0 take_Cons_pred
  take_Cons_1 drop.simps(1) take.simps(1)
  length_Cons_plus1 list.size(3) append.simps concat.simps list.map filter.simps
  diff_numeral_special add_numeral_special add_neg_numeral_special diff_nat_numeral
  nat_neg_numeral diff_zero max_def min_def

lemmas eval_congs =
  if_weak_cong sum.case_cong_weak option.case_cong_weak list.case_cong_weak

lemmas eval_str =
  str_def cu_def of_char_Char horner_sum_simps of_bool_def mult_1_right mult_1
  mult_numeral_1_right mult_numeral_1

lemmas eval_scan =
  findMatchingBrace_def scan_loop.simps scan_trace.simps scan_iter_def scan_body_def
  count_brace_def scan_init_def normal_mode_def char_at_def scan_state.simps

lemmas eval_regex =
  regex_exec.simps ends.simps star_ends.simps cat.simps msgRegex_def fieldRegex_def
  field_p1_def field_num_def field_p3_def is_line_terminator_def is_space_def is_digit_def
  is_ident_start_def is_word_def is_type_char_def not_char_def

lemma String_eval:
  "n < 10 \<Longrightarrow> String n = [48 + n]"
  "String 10 = [49, 48]" "String 11 = [49, 49]" "String 12 = [49, 50]"
  by (simp_all add: String.simps)

lemmas eval_proc =
  processProtoText_def ranges_loop.simps ranges_iter_def rewrite_range_def slice_def
  slice_from_def renumberMessageBody_def field_matches.simps replace_matches.simps String_eval
  lastIndexOf.simps range.simps foldl.simps sort_key_simps insort_key.simps

lemmas eval_tokens = number_tokens_def splice.simps new_tags.simps old_tags_def

lemmas eval_all = eval_str eval_basic eval_scan eval_regex eval_proc

section \<open>Brace counting and the scan modes\<close>

lemma scan_body_not_normal:
  "\<not> normal_mode st \<Longrightarrow> \<exists>st'. scan_body text st = Inr st' \<and> depth st' = depth st"
  unfolding scan_body_def count_brace_def normal_mode_def Let_def
  by (cases "inSingleLineComment st"; cases "inMultiLineComment st"; cases "inDoubleQuote st";
      cases "inSingleQuote st"; simp split: if_splits)

lemma scan_body_depth_change:
  "scan_body text st = Inr st' \<Longrightarrow> depth st' \<noteq> depth st \<Longrightarrow>
     normal_mode st \<and>
     (char_at text (idx st) = Some (cu CHR ''{'') \<and> depth st' = depth st + 1
      \<or> char_at text (idx st) = Some (cu CHR ''}'') \<and> depth st' = depth st - 1)"
  unfolding scan_body_def count_brace_def normal_mode_def Let_def
  by (cases "inSingleLineComment st"; cases "inMultiLineComment st"; cases "inDoubleQuote st";
      cases "inSingleQuote st"; simp split: if_splits; force)

lemma scan_body_Inl:
  "scan_body text st = Inl r \<Longrightarrow>
     normal_mode st \<and> char_at text (idx st) = Some (cu CHR ''}'') \<and> depth st = 1 \<and> r = idx st"
  unfolding scan_body_def count_brace_def normal_mode_def Let_def
  by (cases "inSingleLineComment st"; cases "inMultiLineComment st"; cases "inDoubleQuote st";
      cases "inSingleQuote st"; simp split: if_splits)






text \<open>
  C4. In a pass through the loop body that starts inside a line comment, a block comment
  or a quoted string, the function does not return and the brace depth after the pass is
  the depth before it, whatever the code unit at the position is. A pass that changes the
  depth starts in normal mode at a brace, and so does a pass that returns.
\<close>

theorem depth_changes_only_in_normal_mode:
  "(\<not> normal_mode st \<longrightarrow>
      (\<exists>st'. scan_body text st = Inr st' \<and> depth st' = depth st))
   \<and> (\<forall>st'. scan_body text st = Inr st' \<and> depth st' \<noteq> depth st \<longrightarrow>
        normal_mode st \<and>
        (char_at text (idx st) = Some (cu CHR ''{'') \<and> depth st' = depth st + 1
         \<or> char_at text (idx st) = Some (cu CHR ''}'') \<and> depth st' = depth st - 1))
   \<and> (\<forall>r. scan_body text st = Inl r \<longrightarrow>
        normal_mode st \<and> char_at text (idx st) = Some (cu CHR ''}'') \<and> depth st = 1 \<and> r = idx st)"
  using scan_body_not_normal [of st "text"] scan_body_depth_change [of "text" st]
    scan_body_Inl [of "text" st]
  by blast

theorem depth_changes_only_in_normal_mode_witness:
  "\<not> normal_mode \<lparr>idx = 2, depth = 1, inSingleLineComment = False, inMultiLineComment = True,
                   inDoubleQuote = False, inSingleQuote = False\<rparr>
   \<and> (\<exists>st'. scan_body (str ''/*{*/}'')
               \<lparr>idx = 2, depth = 1, inSingleLineComment = False, inMultiLineComment = True,
                inDoubleQuote = False, inSingleQuote = False\<rparr> = Inr st'
            \<and> depth st' = 1)
   \<and> scan_body (str ''{}'') (scan_init 0) = Inr ((scan_init 0)\<lparr>depth := 1, idx := 1\<rparr>)
   \<and> normal_mode (scan_init 0)
   \<and> char_at (str ''{}'') 0 = Some (cu CHR ''{'')
   \<and> scan_body (str ''{}'') ((scan_init 0)\<lparr>depth := 1, idx := 1\<rparr>) = Inl 1
   \<and> char_at (str ''{}'') 1 = Some (cu CHR ''}'')"
proof -
  let ?s = "\<lparr>idx = 2, depth = 1, inSingleLineComment = False, inMultiLineComment = True,
             inDoubleQuote = False, inSingleQuote = False\<rparr>"
  let ?s1 = "(scan_init 0)\<lparr>depth := 1, idx := 1\<rparr>"
  have nn: "\<not> normal_mode ?s"
    by (simp add: normal_mode_def)
  with depth_changes_only_in_normal_mode [of ?s "str ''/*{*/}''"]
  have a: "\<exists>st'. scan_body (str ''/*{*/}'') ?s = Inr st' \<and> depth st' = depth ?s"
    by blast
  have step: "scan_body (str ''{}'') (scan_init 0) = Inr ?s1"
    by (simp only: eval_all cong: eval_congs)
  have "depth ?s1 \<noteq> depth (scan_init 0)" "idx (scan_init 0) = 0"
    by (simp_all add: scan_init_def)
  with depth_changes_only_in_normal_mode [of "scan_init 0" "str ''{}''"] step
  have b: "normal_mode (scan_init 0) \<and> char_at (str ''{}'') 0 = Some (cu CHR ''{'')"
    by (auto simp: cu_def scan_init_def)
  have ret: "scan_body (str ''{}'') ?s1 = Inl 1"
    by (simp only: eval_all cong: eval_congs)
  have "idx ?s1 = 1"
    by simp
  with depth_changes_only_in_normal_mode [of ?s1 "str ''{}''"] ret
  have c: "char_at (str ''{}'') 1 = Some (cu CHR ''}'')"
    by simp
  from nn a step b ret c show ?thesis
    by simp
qed

section \<open>The matching brace\<close>




section \<open>Unmatched braces\<close>







section \<open>What renumberMessageBody changes\<close>

lemma chain_mono: "chain pos ms \<Longrightarrow> q \<le> pos \<Longrightarrow> chain q ms"
  by (cases ms) auto

lemma field_matches_chain: "chain lastIndex (field_matches body lastIndex)"
proof (induction body lastIndex rule: field_matches.induct)
  case (1 body lastIndex)
  show ?case
  proof (cases "regex_exec fieldRegex body lastIndex")
    case None
    then show ?thesis
      by (simp add: field_matches.simps [of body lastIndex])
  next
    case (Some m)
    obtain s e1 e2 e3 where m: "m = (s, e1, e2, e3)"
      by (cases m) auto
    from Some m have ex: "regex_exec fieldRegex body lastIndex = Some (s, e1, e2, e3)"
      by simp
    from "1.IH" [OF ex refl refl refl]
    have "chain (if e3 = s then Suc e3 else e3) (field_matches body (if e3 = s then Suc e3 else e3))" .
    then have "chain e3 (field_matches body (if e3 = s then Suc e3 else e3))"
      by (rule chain_mono) simp
    with fieldRegex_exec_bounds [OF ex] ex show ?thesis
      by (simp add: field_matches.simps [of body lastIndex])
  qed
qed

lemma take_drop_join:
  "q \<le> p \<Longrightarrow> p \<le> r \<Longrightarrow>
     take (p - q) (drop q b) @ take (r - p) (drop p b) = take (r - q) (drop q (b :: 'a list))"
proof -
  assume a: "q \<le> p" "p \<le> r"
  have "take ((p - q) + (r - p)) (drop q b) = take (p - q) (drop q b) @ take (r - p) (drop (p - q) (drop q b))"
    by (rule take_add)
  with a show ?thesis
    by simp
qed

lemma take_drop_rest:
  "q \<le> p \<Longrightarrow> take (p - q) (drop q b) @ drop p b = drop q (b :: 'a list)"
proof -
  assume a: "q \<le> p"
  have "take (p - q) (drop q b) @ drop (p - q) (drop q b) = drop q b"
    by (rule append_take_drop_id)
  with a show ?thesis
    by simp
qed

lemma replace_matches_splice:
  "chain pos ms \<Longrightarrow> q \<le> pos \<Longrightarrow>
     take (pos - q) (drop q body) @ replace_matches body pos counter ms
       = splice body q (new_tags counter (map (\<lambda>(s, e1, e2, e3). (e1, e2)) ms))"
proof (induction ms arbitrary: pos q counter)
  case Nil
  then show ?case
    by (simp add: take_drop_rest)
next
  case (Cons m ms)
  obtain s e1 e2 e3 where m: "m = (s, e1, e2, e3)"
    by (cases m) auto
  from Cons.prems m have ord: "pos \<le> s" "s \<le> e1" "e1 \<le> e2" "e2 \<le> e3" and ch: "chain e3 ms"
    by auto
  from Cons.IH [OF ch ord(4)]
  have ih: "take (e3 - e2) (drop e2 body) @ replace_matches body e3 (Suc counter) ms
              = splice body e2 (new_tags (Suc counter) (map (\<lambda>(s, e1, e2, e3). (e1, e2)) ms))" .
  have "take (pos - q) (drop q body) @ take (s - pos) (drop pos body) = take (s - q) (drop q body)"
    using Cons.prems(2) ord(1) by (rule take_drop_join)
  moreover have "take (s - q) (drop q body) @ take (e1 - s) (drop s body) = take (e1 - q) (drop q body)"
    using Cons.prems(2) ord by (intro take_drop_join) auto
  ultimately have pre: "take (pos - q) (drop q body) @ take (s - pos) (drop pos body)
      @ take (e1 - s) (drop s body) = take (e1 - q) (drop q body)"
    by (simp only: append_assoc [symmetric])
  have "take (pos - q) (drop q body) @ replace_matches body pos counter (m # ms)
      = (take (pos - q) (drop q body) @ take (s - pos) (drop pos body) @ take (e1 - s) (drop s body))
        @ String counter @ (take (e3 - e2) (drop e2 body) @ replace_matches body e3 (Suc counter) ms)"
    using ord m by (simp add: Let_def)
  also have "\<dots> = take (e1 - q) (drop q body) @ String counter
        @ splice body e2 (new_tags (Suc counter) (map (\<lambda>(s, e1, e2, e3). (e1, e2)) ms))"
    by (simp only: pre ih)
  finally show ?case
    using m by simp
qed

lemma splice_old_tags:
  "chain pos ms \<Longrightarrow> q \<le> pos \<Longrightarrow>
     splice body q (old_tags body (map (\<lambda>(s, e1, e2, e3). (e1, e2)) ms)) = drop q body"
proof (induction ms arbitrary: pos q)
  case Nil
  then show ?case
    by (simp add: old_tags_def)
next
  case (Cons m ms)
  obtain s e1 e2 e3 where m: "m = (s, e1, e2, e3)"
    by (cases m) auto
  from Cons.prems m have ord: "pos \<le> s" "s \<le> e1" "e1 \<le> e2" "e2 \<le> e3" and ch: "chain e3 ms"
    by auto
  from Cons.IH [OF ch ord(4)]
  have ih: "splice body e2 (old_tags body (map (\<lambda>(s, e1, e2, e3). (e1, e2)) ms)) = drop e2 body" .
  have qe1: "q \<le> e1" using Cons.prems(2) ord by simp
  have "take (e1 - q) (drop q body) @ take (e2 - e1) (drop e1 body) = take (e2 - q) (drop q body)"
    using qe1 ord(3) by (rule take_drop_join)
  moreover have "take (e2 - q) (drop q body) @ drop e2 body = drop q body"
    using qe1 ord(3) by (intro take_drop_rest) simp
  ultimately have "take (e1 - q) (drop q body) @ take (e2 - e1) (drop e1 body) @ drop e2 body = drop q body"
    by (simp only: append_assoc [symmetric])
  with ih m show ?case
    by (simp add: old_tags_def)
qed

lemma star_ends_all:
  "e \<in> set (star_ends p cs i) \<Longrightarrow> k < e - i \<Longrightarrow> p (cs ! k)"
proof (induction cs arbitrary: i e k)
  case Nil
  then show ?case by simp
next
  case (Cons c cs)
  show ?case
  proof (cases "p c")
    case False
    with Cons.prems show ?thesis by simp
  next
    case True
    with Cons.prems have "e \<in> set (star_ends p cs (Suc i)) \<or> e = i"
      by auto
    with Cons.prems(2) have e: "e \<in> set (star_ends p cs (Suc i))"
      by auto
    show ?thesis
    proof (cases k)
      case 0
      with True show ?thesis by simp
    next
      case (Suc k')
      with Cons.prems(2) have "k' < e - Suc i" by simp
      from Cons.IH [OF e this] Suc show ?thesis by simp
    qed
  qed
qed

lemma field_num_digits:
  assumes "e2 \<in> set (ends field_num t e1)"
  shows "e1 < e2 \<and> (\<forall>i. e1 \<le> i \<and> i < e2 \<longrightarrow> is_digit (t ! i))"
proof -
  from assms obtain c cs where d: "drop e1 t = c # cs" and c: "is_digit c"
    and e: "e2 \<in> set (star_ends is_digit cs (Suc e1))"
    by (cases "drop e1 t") (auto simp: field_num_def split: if_splits)
  from star_ends_bounds [OF e] have lt: "e1 < e2" by simp
  from d have "length (drop e1 t) = Suc (length cs)"
    by simp
  then have len: "e1 \<le> length t"
    by simp
  have nth: "t ! (e1 + k) = (c # cs) ! k" for k
    using nth_drop [OF len, of k] d by simp
  have "is_digit (t ! i)" if i: "e1 \<le> i" "i < e2" for i
  proof (cases "i = e1")
    case True
    with nth [of 0] c show ?thesis by simp
  next
    case False
    with i have k: "i - Suc e1 < e2 - Suc e1" by simp
    from star_ends_all [OF e k] have "is_digit (cs ! (i - Suc e1))" .
    moreover from i False have "i = e1 + Suc (i - Suc e1)" by simp
    ultimately show ?thesis
      using nth [of "Suc (i - Suc e1)"] by simp
  qed
  with lt show ?thesis by blast
qed

lemma field_matches_members:
  "m \<in> set (field_matches body lastIndex) \<Longrightarrow>
     fst m \<le> length body \<and> snd m \<in> set (fieldRegex body (fst m))"
proof (induction body lastIndex rule: field_matches.induct)
  case (1 body lastIndex)
  show ?case
  proof (cases "regex_exec fieldRegex body lastIndex")
    case None
    with "1.prems" show ?thesis
      by (simp add: field_matches.simps [of body lastIndex])
  next
    case (Some x)
    obtain s e1 e2 e3 where x: "x = (s, e1, e2, e3)"
      by (cases x) auto
    from Some x have ex: "regex_exec fieldRegex body lastIndex = Some (s, e1, e2, e3)"
      by simp
    from "1.prems" ex have "m = (s, e1, e2, e3)
        \<or> m \<in> set (field_matches body (if e3 = s then Suc e3 else e3))"
      by (simp add: field_matches.simps [of body lastIndex])
    then show ?thesis
    proof
      assume m: "m = (s, e1, e2, e3)"
      from regex_exec_Some [OF ex] have "s \<le> length body" "fieldRegex body s \<noteq> []"
        "(e1, e2, e3) = hd (fieldRegex body s)"
        by auto
      with m show ?thesis
        by simp
    next
      assume "m \<in> set (field_matches body (if e3 = s then Suc e3 else e3))"
      from "1.IH" [OF ex refl refl refl this] show ?thesis .
    qed
  qed
qed

lemma number_tokens_digits:
  assumes "(a, b) \<in> set (number_tokens body)"
  shows "a < b \<and> b \<le> length body \<and> (\<forall>i. a \<le> i \<and> i < b \<longrightarrow> is_digit (body ! i))"
proof -
  from assms obtain s e3 where m: "(s, a, b, e3) \<in> set (field_matches body 0)"
    by (auto simp: number_tokens_def)
  from field_matches_members [OF m] have s: "s \<le> length body"
    and r: "(a, b, e3) \<in> set (fieldRegex body s)"
    by auto
  from r have "b \<in> set (ends field_num body a)"
    by (auto simp: fieldRegex_def)
  from field_num_digits [OF this] fieldRegex_bounds [OF r s] show ?thesis
    by simp
qed

text \<open>
  C7. The result of \<open>renumberMessageBody\<close> is the body in which the number token of
  each match is replaced by the next value of the counter, starting at 1, and every other
  code unit is kept: the text before the first match, the label, type, name, white space,
  options and semicolon of each match, and the text between and behind the matches. The
  body itself is the same text with each token holding its old digits. The tokens are
  runs of at least one digit inside the body.
\<close>

theorem renumber_changes_only_number_tokens:
  "renumberMessageBody body = splice body 0 (new_tags 1 (number_tokens body))
   \<and> body = splice body 0 (old_tags body (number_tokens body))
   \<and> (\<forall>(a, b) \<in> set (number_tokens body).
         a < b \<and> b \<le> length body \<and> (\<forall>i. a \<le> i \<and> i < b \<longrightarrow> is_digit (body ! i)))"
proof -
  have ch: "chain 0 (field_matches body 0)"
    by (rule field_matches_chain)
  from replace_matches_splice [OF ch, of 0 body 1]
  have "renumberMessageBody body = splice body 0 (new_tags 1 (number_tokens body))"
    by (simp add: renumberMessageBody_def number_tokens_def)
  moreover from splice_old_tags [OF ch, of 0 body]
  have "body = splice body 0 (old_tags body (number_tokens body))"
    by (simp add: number_tokens_def)
  moreover have "\<forall>(a, b) \<in> set (number_tokens body).
         a < b \<and> b \<le> length body \<and> (\<forall>i. a \<le> i \<and> i < b \<longrightarrow> is_digit (body ! i))"
    using number_tokens_digits [of _ _ body] by blast
  ultimately show ?thesis
    by blast
qed

theorem renumber_changes_only_number_tokens_witness:
  "number_tokens (str ''\<newline>int32 a = 7 [x = 1];\<newline>'') = [(11, 12)]
   \<and> renumberMessageBody (str ''\<newline>int32 a = 7 [x = 1];\<newline>'')
       = take 11 (str ''\<newline>int32 a = 7 [x = 1];\<newline>'') @ str ''1''
         @ drop 12 (str ''\<newline>int32 a = 7 [x = 1];\<newline>'')
   \<and> renumberMessageBody (str ''\<newline>int32 a = 7 [x = 1];\<newline>'') = str ''\<newline>int32 a = 1 [x = 1];\<newline>''
   \<and> is_digit (str ''\<newline>int32 a = 7 [x = 1];\<newline>'' ! 11)"
proof -
  let ?b = "str ''\<newline>int32 a = 7 [x = 1];\<newline>''"
  have toks: "number_tokens ?b = [(11, 12)]"
    by (simp only: eval_all eval_tokens cong: eval_congs)
  have one: "String 1 = str ''1''"
    by (simp only: eval_all cong: eval_congs)
  have res: "take 11 ?b @ str ''1'' @ drop 12 ?b = str ''\<newline>int32 a = 1 [x = 1];\<newline>''"
    by (simp only: eval_all cong: eval_congs)
  from renumber_changes_only_number_tokens [of ?b] toks one
  have "renumberMessageBody ?b = take 11 ?b @ str ''1'' @ drop 12 ?b" and "is_digit (?b ! 11)"
    by simp_all
  with toks res show ?thesis
    by simp
qed

section \<open>Comments inside a body\<close>
















text \<open>
  C9. \<open>renumberMessageBody\<close> does not know about comments. In the body below, the line
  \<open>int32 z = 7;\<close> inside the block comment is a match: it gets tag 1, and the field
  \<open>a\<close> after the comment gets tag 2, whereas the same field alone gets tag 1.
\<close>

theorem block_comment_field_is_renumbered:
  "renumberMessageBody (str ''\<newline>/*\<newline>int32 z = 7;\<newline>*/\<newline>int32 a = 1;\<newline>'')
     = str ''\<newline>/*\<newline>int32 z = 1;\<newline>*/\<newline>int32 a = 2;\<newline>''
   \<and> renumberMessageBody (str ''\<newline>int32 a = 1;\<newline>'') = str ''\<newline>int32 a = 1;\<newline>''"
  by (simp only: eval_all cong: eval_congs)

section \<open>Whole documents\<close>

lemma nested_example:
  "processProtoText (str ''message Outer { message Inner { int32 x = 9; } int32 y = 3; }'')
     = (str ''message Outer { message Inner { int32 x = 1; } int32 y = 3; }'', True)"
  by (simp only: eval_all cong: eval_congs)

text \<open>
  C2, as stated. In the one-line document \<open>Outer\<close> the result does not have tag 1 on
  the field \<open>y\<close> of \<open>Outer\<close>.
\<close>

theorem nested_example_one_line_counterexample:
  "fst (processProtoText (str ''message Outer { message Inner { int32 x = 9; } int32 y = 3; }''))
     \<noteq> str ''message Outer { message Inner { int32 x = 1; } int32 y = 1; }''"
  unfolding nested_example by (simp add: str_def)

text \<open>
  C2, amended. The body of \<open>Outer\<close> is a single line that begins with
  \<open>message Inner\<close>, and \<open>fieldRegex\<close> matches at the start of a line only. The field
  \<open>x\<close> of \<open>Inner\<close> gets tag 1, the field \<open>y\<close> of \<open>Outer\<close> keeps tag 3.
\<close>

theorem nested_example_one_line:
  "processProtoText (str ''message Outer { message Inner { int32 x = 9; } int32 y = 3; }'')
     = (str ''message Outer { message Inner { int32 x = 1; } int32 y = 3; }'', True)"
  by (rule nested_example)

text \<open>
  C1. A document on which the tags of a message are not 1, 2, ... in order: \<open>Inner\<close> is
  renumbered first and its field \<open>x\<close> gets tag 1; then the body of \<open>Outer\<close>, which
  contains the line of \<open>x\<close>, is renumbered, and \<open>x\<close> gets tag 2, between the tags 1
  and 3 of the two fields of \<open>Outer\<close>.
\<close>

theorem nested_message_tags_not_sequential:
  "processProtoText (str ''message Outer {\<newline>  int32 a = 5;\<newline>  message Inner {\<newline>    int32 x = 9;\<newline>  }\<newline>  int32 y = 3;\<newline>}\<newline>'')
     = (str ''message Outer {\<newline>  int32 a = 1;\<newline>  message Inner {\<newline>    int32 x = 2;\<newline>  }\<newline>  int32 y = 3;\<newline>}\<newline>'', True)"
  by (simp only: eval_all cong: eval_congs)

lemma first_pass:
  "processProtoText (str ''message A{message B{\<newline>a b=1;\<newline>a b=1;\<newline>a b=1;\<newline>a b=1;\<newline>a b=1;\<newline>a b=1;\<newline>a b=1;\<newline>a b=1;\<newline>a b=1;\<newline>a b=1;}\<newline>y z=5;}'')
     = (str ''message A{message B{\<newline>a b=1;\<newline>a b=2;\<newline>a b=3;\<newline>a b=4;\<newline>a b=5;\<newline>a b=6;\<newline>a b=7;\<newline>a b=8;\<newline>a b=9;\<newline>a b=10;}\<newline>y z=5;}'', True)"
  by (simp only: eval_all cong: eval_congs)

lemma second_pass:
  "processProtoText (str ''message A{message B{\<newline>a b=1;\<newline>a b=2;\<newline>a b=3;\<newline>a b=4;\<newline>a b=5;\<newline>a b=6;\<newline>a b=7;\<newline>a b=8;\<newline>a b=9;\<newline>a b=10;}\<newline>y z=5;}'')
     = (str ''message A{message B{\<newline>a b=1;\<newline>a b=2;\<newline>a b=3;\<newline>a b=4;\<newline>a b=5;\<newline>a b=6;\<newline>a b=7;\<newline>a b=8;\<newline>a b=9;\<newline>a b=10;}\<newline>y z=11;}'', True)"
  by (simp only: eval_all cong: eval_congs)

text \<open>
  C3. A document on which a second run changes the result of the first. Message \<open>B\<close>
  has ten fields; renumbering it makes the tag of the tenth one code unit longer. The
  \<open>close\<close> of the enclosing message \<open>A\<close> was computed on the input, so in the first run
  the body taken for \<open>A\<close> ends one code unit early, before the semicolon of \<open>y z=5;\<close>,
  and that field is not matched. The second run computes the ranges on the result of the
  first, matches the field and gives it tag 11.
\<close>

theorem second_run_changes_result:
  "processProtoText (fst (processProtoText (str ''message A{message B{\<newline>a b=1;\<newline>a b=1;\<newline>a b=1;\<newline>a b=1;\<newline>a b=1;\<newline>a b=1;\<newline>a b=1;\<newline>a b=1;\<newline>a b=1;\<newline>a b=1;}\<newline>y z=5;}'')))
     = (str ''message A{message B{\<newline>a b=1;\<newline>a b=2;\<newline>a b=3;\<newline>a b=4;\<newline>a b=5;\<newline>a b=6;\<newline>a b=7;\<newline>a b=8;\<newline>a b=9;\<newline>a b=10;}\<newline>y z=11;}'', True)
   \<and> processProtoText (str ''message A{message B{\<newline>a b=1;\<newline>a b=1;\<newline>a b=1;\<newline>a b=1;\<newline>a b=1;\<newline>a b=1;\<newline>a b=1;\<newline>a b=1;\<newline>a b=1;\<newline>a b=1;}\<newline>y z=5;}'')
     = (str ''message A{message B{\<newline>a b=1;\<newline>a b=2;\<newline>a b=3;\<newline>a b=4;\<newline>a b=5;\<newline>a b=6;\<newline>a b=7;\<newline>a b=8;\<newline>a b=9;\<newline>a b=10;}\<newline>y z=5;}'', True)
   \<and> str ''message A{message B{\<newline>a b=1;\<newline>a b=2;\<newline>a b=3;\<newline>a b=4;\<newline>a b=5;\<newline>a b=6;\<newline>a b=7;\<newline>a b=8;\<newline>a b=9;\<newline>a b=10;}\<newline>y z=11;}''
     \<noteq> str ''message A{message B{\<newline>a b=1;\<newline>a b=2;\<newline>a b=3;\<newline>a b=4;\<newline>a b=5;\<newline>a b=6;\<newline>a b=7;\<newline>a b=8;\<newline>a b=9;\<newline>a b=10;}\<newline>y z=5;}''"
proof -
  have "str ''message A{message B{\<newline>a b=1;\<newline>a b=2;\<newline>a b=3;\<newline>a b=4;\<newline>a b=5;\<newline>a b=6;\<newline>a b=7;\<newline>a b=8;\<newline>a b=9;\<newline>a b=10;}\<newline>y z=11;}''
     \<noteq> str ''message A{message B{\<newline>a b=1;\<newline>a b=2;\<newline>a b=3;\<newline>a b=4;\<newline>a b=5;\<newline>a b=6;\<newline>a b=7;\<newline>a b=8;\<newline>a b=9;\<newline>a b=10;}\<newline>y z=5;}''"
    by (simp add: str_def)
  with first_pass second_pass show ?thesis
    by simp
qed

section \<open>Termination\<close>








end
